theory Spec2Isabelle
  imports
    Main
    "HOL-Library.Word"
    "HOL-Library.Char_ord"
    "HOL-Library.List_Lexorder"
    "HOL-Library.Sublist"
    "HOL-Library.AList"
begin

section \<open>Data model\<close>

text \<open>
  Keys and values are opaque byte sequences (Go's \<open>[]byte\<close>).  A Record is a pair of them.
  A Store holds its Records in iteration order, which is the byte-lexicographic order of
  the keys; \<open>store_inv\<close> is the invariant of such a listing (strictly increasing keys).
\<close>

type_synonym bytes = "8 word list"
type_synonym kv = "bytes \<times> bytes"
type_synonym path = "string list"

definition store_inv :: "kv list \<Rightarrow> bool" where
  "store_inv recs = sorted_wrt (<) (map fst recs)"

text \<open>
  The file system as the program sees it: an association list from paths (lists of
  components; \<open>filepath.Join d n\<close> is \<open>d @ [n]\<close>) to nodes.  A store directory of a storage
  engine is one node that carries the backend kind and the Records; its on-disk format is
  not modelled.
\<close>

datatype node = File bytes | Dir | DB string "kv list"

type_synonym fs = "(path \<times> node) list"

fun is_dir :: "node \<Rightarrow> bool" where
  "is_dir (File _) = False"
| "is_dir Dir = True"
| "is_dir (DB _ _) = True"

text \<open>Go's \<open>*PathError\<close> and \<open>*LinkError\<close>: operation, path(s), cause.\<close>

datatype os_error = PathError string path string | LinkError string path path string

text \<open>The errors \<open>migrateDB\<close> returns, one constructor per \<open>fmt.Errorf\<close> of the source.\<close>

datatype error =
    OpenError string string      \<comment> \<open>\<open>open %s: %w\<close>\<close>
  | IteratorError string         \<comment> \<open>\<open>iterator: %w\<close>\<close>
  | BatchSetError string         \<comment> \<open>\<open>batch set: %w\<close>\<close>
  | CommitError string           \<comment> \<open>\<open>commit batch: %w\<close>\<close>
  | CloseError string            \<comment> \<open>\<open>close batch: %w\<close>\<close>

text \<open>
  What the main goroutine prints, one constructor per \<open>Printf\<close> or \<open>Println\<close> call of the
  source.  The lines of the progress goroutine are not part of this trace.
\<close>

datatype line =
    Migrating string                  \<comment> \<open>\<open>Migrating %s database...\<close>\<close>
  | MigrationDone nat int             \<comment> \<open>\<open>Migration completed successfully! %d records migrated in %v\<close>\<close>
  | Prompt string                     \<comment> \<open>\<open>%s (y/n): \<close>\<close>
  | InvalidInput                      \<comment> \<open>\<open>Invalid input. Please enter 'y' or 'n'.\<close>\<close>
  | Copying                           \<comment> \<open>\<open>Copying the migrated data to the original directory...\<close>\<close>
  | Replacing path                    \<comment> \<open>\<open>Replacing %s\<close>\<close>
  | Moved path path                   \<comment> \<open>\<open>Moved %s -> %s\<close>\<close>
  | Completed                         \<comment> \<open>\<open>Migration completed successfully!\<close>\<close>

text \<open>The messages of the \<open>fatalf\<close> calls of \<open>main\<close>, one constructor per call.\<close>

datatype fatal =
    FailCreateTemp os_error           \<comment> \<open>\<open>Failed to create the temporary directory: %v\<close>\<close>
  | FailMigrate string error          \<comment> \<open>\<open>Failed to migrate %s database: %v. Please fix the error and restart.\<close>\<close>
  | FailReadTemp os_error             \<comment> \<open>\<open>read temp_dir: %v\<close>\<close>
  | FailRemoveAll os_error            \<comment> \<open>\<open>remove all: %v\<close>\<close>
  | FailRename string os_error        \<comment> \<open>\<open>rename %s: %v\<close>\<close>
  | FailRemoveTemp os_error           \<comment> \<open>\<open>Failed to remove the temporary directory: %v\<close>\<close>

text \<open>
  The state of a run: the file system, the lines printed so far, the batches committed so
  far (store path and contents of every successful \<open>WriteSync\<close>, in order) and the number of
  clock readings taken.
\<close>

record world =
  files :: fs
  out :: "line list"
  commits :: "(path \<times> kv list) list"
  clock_reads :: nat

text \<open>
  The environment of a run: everything the program does not decide.  A fault field says
  whether the external call fails for a reason outside the model (I/O, permissions, disk
  space) and with which cause.  A failing \<open>MkdirAll\<close> names the ancestor it could not
  create (by its number of components), a failing \<open>RemoveAll\<close> the entry at or below its
  argument that it could not remove.  \<open>db_entry\<close> is the storage library's name of a
  store's directory entry; \<open>wall\<close> is the clock, by number of the reading; \<open>stdin\<close> are the
  complete lines the operator types before the input ends.
\<close>

record env =
  db_entry :: "string \<Rightarrow> string"
  open_fault :: "string \<Rightarrow> string \<Rightarrow> path \<Rightarrow> string option"
  iter_fault :: "path \<Rightarrow> string option"
  set_fault :: "path \<Rightarrow> nat \<Rightarrow> string option"
  write_fault :: "path \<Rightarrow> nat \<Rightarrow> string option"
  close_fault :: "path \<Rightarrow> nat \<Rightarrow> string option"
  mkdir_fault :: "path \<Rightarrow> (nat \<times> string) option"
  remove_fault :: "path \<Rightarrow> (path \<times> string) option"
  rename_fault :: "path \<Rightarrow> path \<Rightarrow> string option"
  stat_fault :: "path \<Rightarrow> string option"
  readdir_fault :: "path \<Rightarrow> string option"
  wall :: "nat \<Rightarrow> int"
  stdin :: "string list"

section \<open>The Store Handle capability\<close>

text \<open>
  Modelled from the spec: the storage-engine library (\<open>cometbft-db\<close>) is an external
  collaborator whose code is not in the repository.  Its operations follow section 6 of
  the specification: \<open>open\<close>, \<open>iterate\<close>, \<open>newBatch\<close>, \<open>Batch.add\<close>, \<open>Batch.commitSync\<close>.
  The source store is opened in read mode and the destination in write mode (section 4.1,
  step 1): a missing store is an \<open>OpenError\<close> in read mode and is created empty in write
  mode; a store of another backend kind cannot be opened.
\<close>

datatype mode = ReadMode | WriteMode

definition PebbleDBBackend :: string where
  "PebbleDBBackend = ''pebbledb''"

definition NewDB :: "env \<Rightarrow> mode \<Rightarrow> string \<Rightarrow> string \<Rightarrow> path \<Rightarrow> world \<Rightarrow> string + (path \<times> world)" where
  "NewDB env m name backend dir w =
     (let p = dir @ [db_entry env name] in
      case open_fault env name backend dir of
        Some c \<Rightarrow> Inl c
      | None \<Rightarrow>
         (case map_of (files w) p of
            Some (DB b recs) \<Rightarrow> if b = backend then Inr (p, w) else Inl ''wrong backend kind''
          | Some (File x) \<Rightarrow> Inl ''not a store''
          | Some Dir \<Rightarrow> Inl ''not a store''
          | None \<Rightarrow>
             (case m of
                ReadMode \<Rightarrow> Inl ''missing''
              | WriteMode \<Rightarrow>
                 (case map_of (files w) dir of
                    Some Dir \<Rightarrow> Inr (p, w\<lparr>files := files w @ [(p, DB backend [])]\<rparr>)
                  | _ \<Rightarrow> Inl ''no such directory''))))"

text \<open>\<open>Handle.iterate(fullRange)\<close>: the Records of the store, in key order.\<close>

definition Iterator :: "env \<Rightarrow> path \<Rightarrow> world \<Rightarrow> string + kv list" where
  "Iterator env h w =
     (case iter_fault env h of
        Some c \<Rightarrow> Inl c
      | None \<Rightarrow> (case map_of (files w) h of Some (DB b recs) \<Rightarrow> Inr recs | _ \<Rightarrow> Inl ''closed''))"

text \<open>Writing one Record into a store: replace the value of the key, or insert in key order.\<close>

fun db_set :: "bytes \<Rightarrow> bytes \<Rightarrow> kv list \<Rightarrow> kv list" where
  "db_set k v [] = [(k, v)]"
| "db_set k v ((k', v') # recs) =
     (if k = k' then (k, v) # recs
      else if k < k' then (k, v) # (k', v') # recs
      else (k', v') # db_set k v recs)"

definition apply_batch :: "kv list \<Rightarrow> kv list \<Rightarrow> kv list" where
  "apply_batch batch recs = fold (\<lambda>(k, v). db_set k v) batch recs"

text \<open>
  \<open>Batch.add\<close>: a Batch is the list of its pending writes.  The fault is asked for the
  store and the position of the Record in the iteration.
\<close>

definition batch_Set :: "env \<Rightarrow> path \<Rightarrow> nat \<Rightarrow> kv list \<Rightarrow> bytes \<Rightarrow> bytes \<Rightarrow> string + kv list" where
  "batch_Set env h i batch k v =
     (case set_fault env h i of Some c \<Rightarrow> Inl c | None \<Rightarrow> Inr (batch @ [(k, v)]))"

text \<open>
  \<open>Batch.commitSync\<close>: all pending writes reach the store, or none does.  The fault is
  asked for the store and the number of commits made in the run so far.
\<close>

definition batch_WriteSync :: "env \<Rightarrow> path \<Rightarrow> kv list \<Rightarrow> world \<Rightarrow> string + world" where
  "batch_WriteSync env h batch w =
     (case write_fault env h (length (commits w)) of
        Some c \<Rightarrow> Inl c
      | None \<Rightarrow>
         (case map_of (files w) h of
            Some (DB b recs) \<Rightarrow>
              Inr (w\<lparr>files := AList.update h (DB b (apply_batch batch recs)) (files w),
                     commits := commits w @ [(h, batch)]\<rparr>)
          | _ \<Rightarrow> Inl ''closed''))"

definition batch_Close :: "env \<Rightarrow> path \<Rightarrow> world \<Rightarrow> string option" where
  "batch_Close env h w = close_fault env h (length (commits w))"

definition time_Now :: "env \<Rightarrow> world \<Rightarrow> int \<times> world" where
  "time_Now env w = (wall env (clock_reads w), w\<lparr>clock_reads := Suc (clock_reads w)\<rparr>)"

definition print :: "line \<Rightarrow> world \<Rightarrow> world" where
  "print m w = w\<lparr>out := out w @ [m]\<rparr>"

section \<open>The KV Migrator: \<open>migrateDB\<close>\<close>

text \<open>
  The loop of lines 129 to 148 over the Records the iterator still has to yield, with the
  current batch and \<open>totalCount\<close>.  \<open>totalCount\<close> is a Go \<open>int\<close> (64 bits); it counts Records
  of one store and stays far below \<open>2 ^ 63\<close>, so it is a \<open>nat\<close> here.  The send on
  \<open>progressChan\<close> only makes the progress goroutine print and is left out.
\<close>

fun migrate_loop ::
  "env \<Rightarrow> path \<Rightarrow> kv list \<Rightarrow> kv list \<Rightarrow> nat \<Rightarrow> world \<Rightarrow> (error \<times> world) + (kv list \<times> nat \<times> world)" where
  "migrate_loop env newDB [] batch totalCount w = Inr (batch, totalCount, w)"
| "migrate_loop env newDB ((key, val) # iter) batch totalCount w =
     (case batch_Set env newDB totalCount batch key val of
        Inl c \<Rightarrow> Inl (BatchSetError c, w)
      | Inr batch' \<Rightarrow>
         (if (totalCount + 1) mod 10000 = 0 then
            (case batch_WriteSync env newDB batch' w of
               Inl c \<Rightarrow> Inl (CommitError c, w)
             | Inr w' \<Rightarrow>
                (case batch_Close env newDB w' of
                   Some c \<Rightarrow> Inl (CloseError c, w')
                 | None \<Rightarrow> migrate_loop env newDB iter [] (totalCount + 1) w'))
          else migrate_loop env newDB iter batch' (totalCount + 1) w))"

text \<open>
  \<open>migrateDB\<close> returns a Go \<open>error\<close>: \<open>None\<close> is \<open>nil\<close>.  The count and the duration are
  printed, not returned.
\<close>

definition migrateDB :: "env \<Rightarrow> string \<Rightarrow> path \<Rightarrow> string \<Rightarrow> path \<Rightarrow> world \<Rightarrow> error option \<times> world" where
  "migrateDB env dbName dataDir oldDBBackend tempDir w =
     (case NewDB env ReadMode dbName oldDBBackend dataDir w of
        Inl c \<Rightarrow> (Some (OpenError dbName c), w)
      | Inr (oldDB, w1) \<Rightarrow>
         (case NewDB env WriteMode dbName PebbleDBBackend tempDir w1 of
            Inl c \<Rightarrow> (Some (OpenError dbName c), w1)
          | Inr (newDB, w2) \<Rightarrow>
             (case Iterator env oldDB w2 of
                Inl c \<Rightarrow> (Some (IteratorError c), w2)
              | Inr iter \<Rightarrow>
                 (let (startTime, w3) = time_Now env w2 in
                  case migrate_loop env newDB iter [] 0 w3 of
                    Inl (e, w4) \<Rightarrow> (Some e, w4)
                  | Inr (batch, totalCount, w4) \<Rightarrow>
                     (case batch_WriteSync env newDB batch w4 of
                        Inl c \<Rightarrow> (Some (CommitError c), w4)
                      | Inr w5 \<Rightarrow>
                         (case batch_Close env newDB w5 of
                            Some c \<Rightarrow> (Some (CloseError c), w5)
                          | None \<Rightarrow>
                             (let (endTime, w6) = time_Now env w5 in
                              (None, print (MigrationDone totalCount (endTime - startTime)) w6))))))))"

section \<open>The file system collaborator\<close>

text \<open>
  \<open>os.Stat\<close>, \<open>os.MkdirAll\<close>, \<open>os.RemoveAll\<close>, \<open>os.Rename\<close> and \<open>os.ReadDir\<close> as Go documents
  them, on the association list.  The entries at or below a path are those it is a
  prefix of.
\<close>

definition subtree :: "path \<Rightarrow> fs \<Rightarrow> fs" where
  "subtree p fs = filter (\<lambda>(q, n). prefix p q) fs"

definition os_Stat :: "env \<Rightarrow> path \<Rightarrow> world \<Rightarrow> os_error + node" where
  "os_Stat env p w =
     (case stat_fault env p of
        Some c \<Rightarrow> Inl (PathError ''stat'' p c)
      | None \<Rightarrow>
         (case map_of (files w) p of
            None \<Rightarrow> Inl (PathError ''stat'' p ''no such file or directory'')
          | Some n \<Rightarrow> Inr n))"

text \<open>\<open>MkdirAll\<close> creates the path and every missing ancestor; an existing directory is kept.\<close>

fun mkdirs :: "path list \<Rightarrow> fs \<Rightarrow> os_error + fs" where
  "mkdirs [] fs = Inr fs"
| "mkdirs (q # qs) fs =
     (case map_of fs q of
        None \<Rightarrow> mkdirs qs (fs @ [(q, Dir)])
      | Some n \<Rightarrow> if is_dir n then mkdirs qs fs else Inl (PathError ''mkdir'' q ''not a directory''))"

definition os_MkdirAll :: "env \<Rightarrow> path \<Rightarrow> world \<Rightarrow> os_error + world" where
  "os_MkdirAll env p w =
     (case mkdir_fault env p of
        Some (i, c) \<Rightarrow> Inl (PathError ''mkdir'' (take i p) c)
      | None \<Rightarrow>
         (case mkdirs (tl (prefixes p)) (files w) of
            Inl e \<Rightarrow> Inl e
          | Inr fs \<Rightarrow> Inr (w\<lparr>files := fs\<rparr>)))"

text \<open>
  \<open>RemoveAll\<close> removes the path and everything below it; a missing path is no error.
  Which entries a failing \<open>RemoveAll\<close> has removed already is not modelled: the files are
  left as they were.
\<close>

definition os_RemoveAll :: "env \<Rightarrow> path \<Rightarrow> world \<Rightarrow> os_error + world" where
  "os_RemoveAll env p w =
     (case remove_fault env p of
        Some (q, c) \<Rightarrow> Inl (PathError ''unlinkat'' (p @ q) c)
      | None \<Rightarrow> Inr (w\<lparr>files := filter (\<lambda>(q, n). \<not> prefix p q) (files w)\<rparr>))"

text \<open>
  \<open>Rename\<close> moves an entry with everything below it.  Go refuses to rename onto an
  existing directory; an existing file is replaced by a file only.
\<close>

fun relocate :: "path \<Rightarrow> path \<Rightarrow> path \<times> node \<Rightarrow> path \<times> node" where
  "relocate old new (q, n) = (if prefix old q then (new @ drop (length old) q, n) else (q, n))"

definition os_Rename :: "env \<Rightarrow> path \<Rightarrow> path \<Rightarrow> world \<Rightarrow> os_error + world" where
  "os_Rename env old new w =
     (case rename_fault env old new of
        Some c \<Rightarrow> Inl (LinkError ''rename'' old new c)
      | None \<Rightarrow>
         (case map_of (files w) old of
            None \<Rightarrow> Inl (LinkError ''rename'' old new ''no such file or directory'')
          | Some n \<Rightarrow>
             (case map_of (files w) new of
                Some n' \<Rightarrow>
                  if is_dir n' then Inl (LinkError ''rename'' old new ''file exists'')
                  else if is_dir n then Inl (LinkError ''rename'' old new ''not a directory'')
                  else if old = new then Inr w
                  else Inr (w\<lparr>files := map (relocate old new)
                                (filter (\<lambda>(q, n). \<not> prefix new q) (files w))\<rparr>)
              | None \<Rightarrow>
                  if prefix old new \<or> prefix new old
                  then Inl (LinkError ''rename'' old new ''invalid argument'')
                  else if butlast new \<noteq> [] \<and> map_of (files w) (butlast new) \<noteq> Some Dir
                  then Inl (LinkError ''rename'' old new ''no such file or directory'')
                  else Inr (w\<lparr>files := map (relocate old new)
                                (filter (\<lambda>(q, n). \<not> prefix new q) (files w))\<rparr>))))"

text \<open>
  \<open>ReadDir\<close> returns the entries of a directory sorted by file name; an entry is its
  name and whether it is a directory (\<open>entry.Name()\<close>, \<open>entry.IsDir()\<close>).
\<close>

definition child_names :: "path \<Rightarrow> fs \<Rightarrow> string list" where
  "child_names p fs = sort (remdups (map (\<lambda>(q, n). last q) (filter (\<lambda>(q, n). q \<noteq> [] \<and> butlast q = p) fs)))"

definition os_ReadDir :: "env \<Rightarrow> path \<Rightarrow> world \<Rightarrow> os_error + (string \<times> bool) list" where
  "os_ReadDir env p w =
     (case readdir_fault env p of
        Some c \<Rightarrow> Inl (PathError ''open'' p c)
      | None \<Rightarrow>
         (case map_of (files w) p of
            None \<Rightarrow> Inl (PathError ''open'' p ''no such file or directory'')
          | Some n \<Rightarrow>
             if is_dir n
             then Inr (map (\<lambda>name. (name, case map_of (files w) (p @ [name]) of
                                             Some c \<Rightarrow> is_dir c | None \<Rightarrow> False))
                        (child_names p (files w)))
             else Inl (PathError ''readdirent'' p ''not a directory'')))"

section \<open>The operator: \<open>promptYesNo\<close>\<close>

text \<open>
  \<open>strings.ToLower\<close> and \<open>strings.TrimSpace\<close> on ASCII input.  \<open>promptYesNo\<close> reads lines
  until one is an answer.  When the input ends, \<open>ReadString\<close> fails on every call and the
  loop of the source never returns: that is \<open>None\<close>.
\<close>

definition ToLower_char :: "char \<Rightarrow> char" where
  "ToLower_char c =
     (case map_of (zip ''ABCDEFGHIJKLMNOPQRSTUVWXYZ'' ''abcdefghijklmnopqrstuvwxyz'') c of
        Some l \<Rightarrow> l
      | None \<Rightarrow> c)"

definition isSpace :: "char \<Rightarrow> bool" where
  "isSpace c = (c \<in> set [CHR '' '', CHR 0x09, CHR 0x0A, CHR 0x0B, CHR 0x0C, CHR 0x0D])"

definition TrimSpace :: "string \<Rightarrow> string" where
  "TrimSpace s = rev (dropWhile isSpace (rev (dropWhile isSpace s)))"

fun promptYesNo :: "string \<Rightarrow> string list \<Rightarrow> world \<Rightarrow> (bool \<times> world) option" where
  "promptYesNo question [] w = None"
| "promptYesNo question (l # ls) w =
     (let w1 = print (Prompt question) w;
          input = TrimSpace (map ToLower_char l)
      in if input = ''y'' \<or> input = ''yes'' then Some (True, w1)
         else if input = ''n'' \<or> input = ''no'' then Some (False, w1)
         else promptYesNo question ls (print InvalidInput w1))"

section \<open>The Migration Orchestrator: \<open>main\<close>\<close>

text \<open>
  \<open>fatalf\<close> prints its message and exits with status 1: the run ends with the message and
  the state it has reached.  A part of \<open>main\<close> returns \<open>Inl\<close> of them, or \<open>Inr\<close> of the state
  to go on with.
\<close>

definition fatalf :: "fatal \<Rightarrow> world \<Rightarrow> (fatal \<times> world) + world" where
  "fatalf f w = Inl (f, w)"

definition cometBFTDatabases :: "string list" where
  "cometBFTDatabases = [''blockstore'', ''state'', ''tx_index'', ''evidence'']"

definition lightClientDBName :: string where
  "lightClientDBName = ''light-client-db''"

text \<open>Lines 29 to 34: the loop over the store names.\<close>

fun migrate_all :: "env \<Rightarrow> string list \<Rightarrow> path \<Rightarrow> string \<Rightarrow> path \<Rightarrow> world \<Rightarrow> (fatal \<times> world) + world" where
  "migrate_all env [] dataDir oldDBBackend tempDir w = Inr w"
| "migrate_all env (dbName # names) dataDir oldDBBackend tempDir w =
     (case migrateDB env dbName dataDir oldDBBackend tempDir (print (Migrating dbName) w) of
        (Some err, w') \<Rightarrow> fatalf (FailMigrate dbName err) w'
      | (None, w') \<Rightarrow> migrate_all env names dataDir oldDBBackend tempDir w')"

text \<open>Lines 37 to 43: the light client store, when \<open>Stat\<close> returns no error.\<close>

definition migrate_light :: "env \<Rightarrow> path \<Rightarrow> string \<Rightarrow> path \<Rightarrow> world \<Rightarrow> (fatal \<times> world) + world" where
  "migrate_light env dataDir oldDBBackend tempDir w =
     (case os_Stat env (dataDir @ [lightClientDBName]) w of
        Inr n \<Rightarrow>
          (case migrateDB env lightClientDBName dataDir oldDBBackend tempDir
                  (print (Migrating lightClientDBName) w) of
             (Some err, w') \<Rightarrow> fatalf (FailMigrate lightClientDBName err) w'
           | (None, w') \<Rightarrow> Inr w')
      | Inl e \<Rightarrow> Inr w)"

text \<open>Lines 56 to 75: the body of the loop over the entries of the staging directory.\<close>

definition swap_entry :: "env \<Rightarrow> path \<Rightarrow> path \<Rightarrow> string \<times> bool \<Rightarrow> world \<Rightarrow> (fatal \<times> world) + world" where
  "swap_entry env dataDir tempDir entry w =
     (if snd entry then
        (let srcPath = tempDir @ [fst entry];
             destPath = dataDir @ [fst entry]
         in case (case os_Stat env destPath w of
                    Inr n \<Rightarrow>
                      (case os_RemoveAll env destPath (print (Replacing destPath) w) of
                         Inl e \<Rightarrow> fatalf (FailRemoveAll e) (print (Replacing destPath) w)
                       | Inr w1 \<Rightarrow> Inr w1)
                  | Inl e \<Rightarrow> Inr w) of
              Inl x \<Rightarrow> Inl x
            | Inr w1 \<Rightarrow>
               (case os_Rename env srcPath destPath w1 of
                  Inl e \<Rightarrow> fatalf (FailRename (fst entry) e) w1
                | Inr w2 \<Rightarrow> Inr (print (Moved srcPath destPath) w2)))
      else Inr w)"

fun swap_entries :: "env \<Rightarrow> path \<Rightarrow> path \<Rightarrow> (string \<times> bool) list \<Rightarrow> world \<Rightarrow> (fatal \<times> world) + world" where
  "swap_entries env dataDir tempDir [] w = Inr w"
| "swap_entries env dataDir tempDir (entry # entries) w =
     (case swap_entry env dataDir tempDir entry w of
        Inl x \<Rightarrow> Inl x
      | Inr w' \<Rightarrow> swap_entries env dataDir tempDir entries w')"

text \<open>Lines 48 to 76: the swap, which runs when the operator has confirmed.\<close>

definition copy_migrated :: "env \<Rightarrow> path \<Rightarrow> path \<Rightarrow> world \<Rightarrow> (fatal \<times> world) + world" where
  "copy_migrated env dataDir tempDir w =
     (case os_ReadDir env tempDir (print Copying w) of
        Inl e \<Rightarrow> fatalf (FailReadTemp e) (print Copying w)
      | Inr entries \<Rightarrow> swap_entries env dataDir tempDir entries (print Copying w))"

text \<open>Lines 47 to 84: the swap when confirmed, then the cleanup in both cases.\<close>

definition finish :: "env \<Rightarrow> path \<Rightarrow> path \<Rightarrow> bool \<Rightarrow> world \<Rightarrow> (fatal \<times> world) + world" where
  "finish env dataDir tempDir confirmed w =
     (case (if confirmed then copy_migrated env dataDir tempDir w else Inr w) of
        Inl x \<Rightarrow> Inl x
      | Inr w1 \<Rightarrow>
         (case os_RemoveAll env tempDir w1 of
            Inl e \<Rightarrow> fatalf (FailRemoveTemp e) w1
          | Inr w2 \<Rightarrow> Inr (print Completed w2)))"

text \<open>
  \<open>main\<close>, with the three flags as arguments.  \<open>None\<close>: the run never ends (the prompt at
  the end of the input); \<open>Some (Inl (f, w))\<close>: exit status 1 after the message \<open>f\<close>;
  \<open>Some (Inr w)\<close>: exit status 0.
\<close>

definition main :: "env \<Rightarrow> path \<Rightarrow> string \<Rightarrow> path \<Rightarrow> world \<Rightarrow> ((fatal \<times> world) + world) option" where
  "main env dataDir oldDBBackend tempDir w =
     (case os_MkdirAll env tempDir w of
        Inl e \<Rightarrow> Some (fatalf (FailCreateTemp e) w)
      | Inr w1 \<Rightarrow>
         (case migrate_all env cometBFTDatabases dataDir oldDBBackend tempDir w1 of
            Inl x \<Rightarrow> Some (Inl x)
          | Inr w2 \<Rightarrow>
             (case migrate_light env dataDir oldDBBackend tempDir w2 of
                Inl x \<Rightarrow> Some (Inl x)
              | Inr w3 \<Rightarrow>
                 (case promptYesNo ''Do you have a backup of the data directory?'' (stdin env) w3 of
                    None \<Rightarrow> None
                  | Some (confirmed, w4) \<Rightarrow> Some (finish env dataDir tempDir confirmed w4)))))"

section \<open>The text of the fatal messages\<close>

text \<open>
  \<open>%v\<close> of an error is its \<open>Error()\<close>: for \<open>*PathError\<close> the operation, the path and the
  cause, for \<open>*LinkError\<close> the operation, both paths and the cause.
\<close>

definition path_text :: "path \<Rightarrow> string" where
  "path_text p = concat (map (\<lambda>s. CHR ''/'' # s) p)"

fun os_error_text :: "os_error \<Rightarrow> string" where
  "os_error_text (PathError oper p c) = oper @ '' '' @ path_text p @ '': '' @ c"
| "os_error_text (LinkError oper p q c) = oper @ '' '' @ path_text p @ '' '' @ path_text q @ '': '' @ c"

fun error_text :: "error \<Rightarrow> string" where
  "error_text (OpenError dbName c) = ''open '' @ dbName @ '': '' @ c"
| "error_text (IteratorError c) = ''iterator: '' @ c"
| "error_text (BatchSetError c) = ''batch set: '' @ c"
| "error_text (CommitError c) = ''commit batch: '' @ c"
| "error_text (CloseError c) = ''close batch: '' @ c"

fun fatal_text :: "fatal \<Rightarrow> string" where
  "fatal_text (FailCreateTemp e) = ''Failed to create the temporary directory: '' @ os_error_text e"
| "fatal_text (FailMigrate dbName e) =
     ''Failed to migrate '' @ dbName @ '' database: '' @ error_text e @ ''. Please fix the error and restart.''"
| "fatal_text (FailReadTemp e) = ''read temp_dir: '' @ os_error_text e"
| "fatal_text (FailRemoveAll e) = ''remove all: '' @ os_error_text e"
| "fatal_text (FailRename name e) = ''rename '' @ name @ '': '' @ os_error_text e"
| "fatal_text (FailRemoveTemp e) = ''Failed to remove the temporary directory: '' @ os_error_text e"

section \<open>Auxiliary notions for the statements\<close>

text \<open>The effect of a successful commit of the batch \<open>c\<close> on the store at \<open>h\<close>.\<close>

definition db_write :: "path \<Rightarrow> kv list \<Rightarrow> fs \<Rightarrow> fs" where
  "db_write h c fs =
     (case map_of fs h of
        Some (DB b recs) \<Rightarrow> AList.update h (DB b (apply_batch c recs)) fs
      | _ \<Rightarrow> fs)"

text \<open>The effect of opening the destination: a missing store is created empty.\<close>

definition open_dest :: "path \<Rightarrow> fs \<Rightarrow> fs" where
  "open_dest p fs = (case map_of fs p of None \<Rightarrow> fs @ [(p, DB PebbleDBBackend [])] | Some n \<Rightarrow> fs)"

text \<open>
  The answer of the operator: what \<open>promptYesNo\<close> returns on the input lines, whatever the
  question and the state.
\<close>

definition operator_answer :: "string list \<Rightarrow> bool option" where
  "operator_answer ls =
     map_option fst (promptYesNo [] ls \<lparr>files = [], out = [], commits = [], clock_reads = 0\<rparr>)"

text \<open>The state in which a part of \<open>main\<close> ends, fatally or not.\<close>

definition end_world :: "(fatal \<times> world) + world \<Rightarrow> world" where
  "end_world r = (case r of Inl (f, w) \<Rightarrow> w | Inr w \<Rightarrow> w)"

text \<open>The batches committed between two states of a run, in commit order.\<close>

definition new_commits :: "world \<Rightarrow> world \<Rightarrow> kv list list" where
  "new_commits w w' = map snd (drop (length (commits w)) (commits w'))"

text \<open>A run without faults, a small store and a small file system, for the examples.\<close>

definition env0 :: env where
  "env0 = \<lparr>db_entry = (\<lambda>n. n @ ''.db''), open_fault = (\<lambda>n b d. None), iter_fault = (\<lambda>h. None),
            set_fault = (\<lambda>h i. None), write_fault = (\<lambda>h i. None), close_fault = (\<lambda>h i. None),
            mkdir_fault = (\<lambda>p. None), remove_fault = (\<lambda>p. None),
            rename_fault = (\<lambda>p q. None), stat_fault = (\<lambda>p. None), readdir_fault = (\<lambda>p. None),
            wall = (\<lambda>n. 5 * int n), stdin = [''maybe'', '' No '']\<rparr>"

definition recs0 :: "kv list" where
  "recs0 = [([1], [10]), ([2], [20, 21]), ([2, 0], [])]"

definition w0 :: world where
  "w0 = \<lparr>files = [([''data''], Dir), ([''data'', ''state.db''], DB ''goleveldb'' recs0), ([''tmp''], Dir)],
          out = [], commits = [], clock_reads = 0\<rparr>"

text \<open>A live directory whose store is empty.\<close>

definition w_empty :: world where
  "w_empty = \<lparr>files = [([''data''], Dir), ([''data'', ''evidence.db''], DB ''goleveldb'' []), ([''tmp''], Dir)],
          out = [], commits = [], clock_reads = 0\<rparr>"

text \<open>A live directory with the four stores and other files, for the examples.\<close>

definition w_live :: world where
  "w_live = \<lparr>files = [([''data''], Dir),
     ([''data'', ''blockstore.db''], DB ''goleveldb'' [([1], [1])]),
     ([''data'', ''state.db''], DB ''goleveldb'' recs0),
     ([''data'', ''tx_index.db''], DB ''goleveldb'' []),
     ([''data'', ''evidence.db''], DB ''goleveldb'' []),
     ([''data'', ''cs.wal''], Dir), ([''data'', ''cs.wal'', ''wal''], File [7]),
     ([''data'', ''priv_validator_state.json''], File [1, 2])],
     out = [], commits = [], clock_reads = 0\<rparr>"

definition w_declined :: world where
  "w_declined = \<lparr>files = files w_live,
     out = [Migrating ''blockstore'', MigrationDone 1 5, Migrating ''state'', MigrationDone 3 5,
            Migrating ''tx_index'', MigrationDone 0 5, Migrating ''evidence'', MigrationDone 0 5,
            Prompt ''Do you have a backup of the data directory?'', InvalidInput,
            Prompt ''Do you have a backup of the data directory?'', Completed],
     commits = [([''tmp'', ''blockstore.db''], [([1], [1])]), ([''tmp'', ''state.db''], recs0),
                ([''tmp'', ''tx_index.db''], []), ([''tmp'', ''evidence.db''], [])],
     clock_reads = 8\<rparr>"

text \<open>
  A state at the confirmation: the staging directory holds a migrated store, a directory
  and a plain file, and the live directory holds entries of the same names.
\<close>

definition w_staged :: world where
  "w_staged = \<lparr>files = [([''data''], Dir),
     ([''data'', ''state.db''], DB ''goleveldb'' recs0),
     ([''data'', ''extra''], Dir), ([''data'', ''extra'', ''old''], File [9]),
     ([''data'', ''notes.txt''], File [1]),
     ([''tmp''], Dir),
     ([''tmp'', ''state.db''], DB ''pebbledb'' recs0),
     ([''tmp'', ''extra''], Dir), ([''tmp'', ''extra'', ''new''], File [8]),
     ([''tmp'', ''notes.txt''], File [2])],
     out = [], commits = [], clock_reads = 0\<rparr>"

definition w_copied :: world where
  "w_copied = \<lparr>files = [([''data''], Dir), ([''data'', ''notes.txt''], File [1]),
     ([''tmp''], Dir),
     ([''data'', ''state.db''], DB ''pebbledb'' recs0),
     ([''data'', ''extra''], Dir), ([''data'', ''extra'', ''new''], File [8]),
     ([''tmp'', ''notes.txt''], File [2])],
     out = [Copying, Replacing [''data'', ''extra''], Moved [''tmp'', ''extra''] [''data'', ''extra''],
            Replacing [''data'', ''state.db''], Moved [''tmp'', ''state.db''] [''data'', ''state.db'']],
     commits = [], clock_reads = 0\<rparr>"

definition w_swapped :: world where
  "w_swapped = \<lparr>files = [([''data''], Dir), ([''data'', ''notes.txt''], File [1]),
     ([''data'', ''state.db''], DB ''pebbledb'' recs0),
     ([''data'', ''extra''], Dir), ([''data'', ''extra'', ''new''], File [8])],
     out = [Copying, Replacing [''data'', ''extra''], Moved [''tmp'', ''extra''] [''data'', ''extra''],
            Replacing [''data'', ''state.db''], Moved [''tmp'', ''state.db''] [''data'', ''state.db''],
            Completed],
     commits = [], clock_reads = 0\<rparr>"

section \<open>Properties of the store operations\<close>

lemma db_set_append:
  "\<forall>k' \<in> fst ` set recs. k' < k \<Longrightarrow> db_set k v recs = recs @ [(k, v)]"
  by (induction recs) auto

lemma apply_batch_sorted:
  "store_inv (d @ xs) \<Longrightarrow> apply_batch xs d = d @ xs"
proof (induction xs arbitrary: d)
  case Nil
  then show ?case by (simp add: apply_batch_def)
next
  case (Cons x xs)
  obtain k v where x: "x = (k, v)" by (cases x)
  from Cons.prems have lt: "\<forall>k' \<in> fst ` set d. k' < k"
    by (auto simp: store_inv_def x sorted_wrt_append)
  from Cons.prems have "store_inv ((d @ [(k, v)]) @ xs)"
    by (simp add: x)
  from Cons.IH [OF this] show ?case
    by (simp add: apply_batch_def x db_set_append [OF lt])
qed

lemma map_of_db_set: "map_of (db_set k v recs) = (map_of recs)(k \<mapsto> v)"
  by (induction recs) (auto simp: fun_upd_twist)

lemma apply_batch_append: "apply_batch (xs @ ys) d = apply_batch ys (apply_batch xs d)"
  by (simp add: apply_batch_def)

lemma batch_WriteSync_Inr:
  "batch_WriteSync env h c w = Inr w1 \<Longrightarrow>
     w1 = w\<lparr>files := db_write h c (files w), commits := commits w @ [(h, c)]\<rparr>"
  by (auto simp: batch_WriteSync_def db_write_def split: option.splits node.splits)

lemma batch_Set_Inr: "batch_Set env h i batch k v = Inr b' \<Longrightarrow> b' = batch @ [(k, v)]"
  by (auto simp: batch_Set_def split: option.splits)

lemma mod_step1: "(Suc n) mod 10000 = 0 \<Longrightarrow> Suc (n mod 10000) = 10000"
  by (simp add: mod_Suc split: if_splits)

lemma mod_step2: "(Suc n) mod 10000 \<noteq> 0 \<Longrightarrow> Suc n mod 10000 = Suc (n mod 10000)"
  by (simp add: mod_Suc split: if_splits)


lemma migrate_loop_Inr:
  "migrate_loop env h iter batch n w = Inr (batch', n', w') \<Longrightarrow> length batch = n mod 10000 \<Longrightarrow>
   \<exists>cs. w' = w\<lparr>files := fold (db_write h) cs (files w), commits := commits w @ map (Pair h) cs\<rparr>
      \<and> (\<forall>c \<in> set cs. length c = 10000) \<and> concat cs @ batch' = batch @ iter
      \<and> n' = n + length iter \<and> length batch' = n' mod 10000"
proof (induction iter arbitrary: batch n w)
  case Nil
  then show ?case by (intro exI [of _ "[]"]) simp
next
  case (Cons x iter)
  obtain k v where x: "x = (k, v)" by (cases x)
  from Cons.prems(1) obtain b1 where b1: "batch_Set env h n batch k v = Inr b1"
    by (auto simp: x split: sum.splits)
  have b1_eq: "b1 = batch @ [(k, v)]" using batch_Set_Inr [OF b1] .
  show ?case
  proof (cases "Suc n mod 10000 = 0")
    case True
    from Cons.prems(1) b1 True obtain w1 where
      w1: "batch_WriteSync env h b1 w = Inr w1" and
      rest: "migrate_loop env h iter [] (Suc n) w1 = Inr (batch', n', w')"
      by (auto simp: x split: sum.splits option.splits)
    have len: "length b1 = 10000"
      using mod_step1 [OF True] Cons.prems(2) by (simp add: b1_eq)
    have "length ([]::kv list) = Suc n mod 10000" using True by simp
    from Cons.IH [OF rest this] obtain cs where
      cs: "w' = w1\<lparr>files := fold (db_write h) cs (files w1), commits := commits w1 @ map (Pair h) cs\<rparr>"
          "\<forall>c \<in> set cs. length c = 10000" "concat cs @ batch' = [] @ iter"
          "n' = Suc n + length iter" "length batch' = n' mod 10000"
      by blast
    show ?thesis
      using cs len batch_WriteSync_Inr [OF w1]
      by (intro exI [of _ "b1 # cs"]) (simp add: b1_eq x)
  next
    case False
    from Cons.prems(1) b1 False have
      rest: "migrate_loop env h iter b1 (Suc n) w = Inr (batch', n', w')"
      by (auto simp: x split: sum.splits option.splits)
    have "length b1 = Suc n mod 10000"
      using mod_step2 [OF False] Cons.prems(2) by (simp add: b1_eq)
    from Cons.IH [OF rest this] obtain cs where
      cs: "w' = w\<lparr>files := fold (db_write h) cs (files w), commits := commits w @ map (Pair h) cs\<rparr>"
          "\<forall>c \<in> set cs. length c = 10000" "concat cs @ batch' = b1 @ iter"
          "n' = Suc n + length iter" "length batch' = n' mod 10000"
      by blast
    then show ?thesis
      by (intro exI [of _ cs]) (simp add: b1_eq x)
  qed
qed

lemma NewDB_Read_Inr:
  "NewDB env ReadMode name b dir w = Inr (p, w1) \<Longrightarrow>
     p = dir @ [db_entry env name] \<and> w1 = w \<and> (\<exists>recs. map_of (files w) p = Some (DB b recs))"
  by (auto simp: NewDB_def Let_def split: option.splits node.splits if_splits)

lemma NewDB_Write_Inr:
  "NewDB env WriteMode name b dir w = Inr (p, w1) \<Longrightarrow>
     p = dir @ [db_entry env name] \<and>
     ((\<exists>recs. map_of (files w) p = Some (DB b recs)) \<and> w1 = w \<or>
      map_of (files w) p = None \<and> w1 = w\<lparr>files := files w @ [(p, DB b [])]\<rparr>)"
  by (auto simp: NewDB_def Let_def split: option.splits node.splits if_splits)

lemma Iterator_Inr:
  "Iterator env h w = Inr it \<Longrightarrow> \<exists>b. map_of (files w) h = Some (DB b it)"
  by (auto simp: Iterator_def split: option.splits node.splits)

lemma map_of_open_dest:
  "map_of fs q = Some n \<Longrightarrow> map_of (open_dest p fs) q = Some n"
  by (auto simp: open_dest_def map_add_def split: option.splits)

lemma migrateDB_None:
  assumes ok: "migrateDB env dbName dataDir oldDBBackend tempDir w = (None, w')"
  shows "\<exists>src cs.
      map_of (files w) (dataDir @ [db_entry env dbName]) = Some (DB oldDBBackend src)
    \<and> (\<exists>recs. map_of (open_dest (tempDir @ [db_entry env dbName]) (files w))
                  (tempDir @ [db_entry env dbName]) = Some (DB PebbleDBBackend recs))
    \<and> w' = \<lparr>files = fold (db_write (tempDir @ [db_entry env dbName])) cs
                       (open_dest (tempDir @ [db_entry env dbName]) (files w)),
             out = out w @ [MigrationDone (length src)
                      (wall env (Suc (clock_reads w)) - wall env (clock_reads w))],
             commits = commits w @ map (Pair (tempDir @ [db_entry env dbName])) cs,
             clock_reads = Suc (Suc (clock_reads w))\<rparr>
    \<and> cs \<noteq> [] \<and> (\<forall>c \<in> set (butlast cs). length c = 10000) \<and> concat cs = src
    \<and> length (last cs) = length src mod 10000"
proof -
  let ?s = "dataDir @ [db_entry env dbName]" and ?d = "tempDir @ [db_entry env dbName]"
  from ok obtain oldDB w1 where o1: "NewDB env ReadMode dbName oldDBBackend dataDir w = Inr (oldDB, w1)"
    by (auto simp: migrateDB_def split: sum.splits)
  from NewDB_Read_Inr [OF o1] obtain src where
    oldDB: "oldDB = ?s" and w1: "w1 = w" and src: "map_of (files w) ?s = Some (DB oldDBBackend src)"
    by blast
  from ok o1 obtain newDB w2 where o2: "NewDB env WriteMode dbName PebbleDBBackend tempDir w = Inr (newDB, w2)"
    by (auto simp: migrateDB_def w1 split: sum.splits)
  from NewDB_Write_Inr [OF o2] have newDB: "newDB = ?d"
    and w2: "w2 = w\<lparr>files := open_dest ?d (files w)\<rparr>"
    and dst: "\<exists>recs. map_of (open_dest ?d (files w)) ?d = Some (DB PebbleDBBackend recs)"
    by (auto simp: open_dest_def map_add_def)
  from ok o1 o2 obtain iter where it: "Iterator env oldDB w2 = Inr iter"
    by (auto simp: migrateDB_def w1 split: sum.splits)
  from Iterator_Inr [OF it] obtain b where "map_of (files w2) ?s = Some (DB b iter)"
    by (auto simp: oldDB)
  with map_of_open_dest [OF src, of ?d] have iter: "iter = src"
    by (simp add: w2)
  let ?w3 = "w2\<lparr>clock_reads := Suc (clock_reads w2)\<rparr>"
  from ok o1 o2 it obtain batch n w4 where
    lp: "migrate_loop env newDB iter [] 0 ?w3 = Inr (batch, n, w4)"
    by (auto simp: migrateDB_def w1 time_Now_def split: sum.splits prod.splits)
  from ok o1 o2 it lp obtain w5 where
    fin: "batch_WriteSync env newDB batch w4 = Inr w5"
    by (auto simp: migrateDB_def w1 time_Now_def split: sum.splits prod.splits)
  from ok o1 o2 it lp fin have
    w': "w' = print (MigrationDone n (wall env (clock_reads w5) - wall env (clock_reads w2)))
               (w5\<lparr>clock_reads := Suc (clock_reads w5)\<rparr>)"
    by (auto simp: migrateDB_def w1 time_Now_def split: sum.splits prod.splits option.splits)
  from migrate_loop_Inr [OF lp] obtain cs where
    cs: "w4 = ?w3\<lparr>files := fold (db_write newDB) cs (files ?w3),
                   commits := commits ?w3 @ map (Pair newDB) cs\<rparr>"
        "\<forall>c \<in> set cs. length c = 10000" "concat cs @ batch = iter"
        "n = length iter" "length batch = n mod 10000"
    by auto
  have "w' = \<lparr>files = fold (db_write ?d) (cs @ [batch]) (open_dest ?d (files w)),
             out = out w @ [MigrationDone (length src)
                      (wall env (Suc (clock_reads w)) - wall env (clock_reads w))],
             commits = commits w @ map (Pair ?d) (cs @ [batch]),
             clock_reads = Suc (Suc (clock_reads w))\<rparr>"
    using cs(1,4) batch_WriteSync_Inr [OF fin]
    by (simp add: w' print_def w2 newDB iter)
  with cs src dst show ?thesis
    by (intro exI [of _ src] exI [of _ "cs @ [batch]"]) (simp add: iter)
qed

lemma fold_db_write:
  "map_of fs h = Some (DB b recs) \<Longrightarrow>
   map_of (fold (db_write h) cs fs) h = Some (DB b (apply_batch (concat cs) recs))"
proof (induction cs arbitrary: fs recs)
  case Nil
  then show ?case by (simp add: apply_batch_def)
next
  case (Cons c cs)
  have "map_of (db_write h c fs) h = Some (DB b (apply_batch c recs))"
    using Cons.prems by (simp add: db_write_def update_conv')
  from Cons.IH [OF this] show ?case
    by (simp add: apply_batch_append)
qed

lemma length_concat_full:
  "\<forall>c \<in> set bs. length c = T \<Longrightarrow> length (concat bs) = T * length bs"
  by (induction bs) auto

lemma divmod_unique:
  fixes T :: nat
  assumes "T * a + b = T * c + d" "b < T" "d < T"
  shows "a = c \<and> b = d"
proof -
  have "(T * a + b) div T = a" "(T * c + d) div T = c" using assms(2,3) by simp_all
  with assms(1) have "a = c" by simp
  with assms(1) show ?thesis by simp
qed

section \<open>Completeness and order of a migration\<close>

text \<open>
  Claim C1.  Let the live directory hold a Store with the Records \<open>src\<close> (in iteration
  order), and let the staging directory hold no store of that name when \<open>migrateDB\<close> opens
  the destination.  After a successful run the destination Store holds exactly the
  Records of the source, with identical keys and values and nothing else, and the batches
  committed by the run, concatenated in commit order, are the source's Records in
  iteration order.
\<close>

theorem migrateDB_complete:
  assumes src: "map_of (files w) (dataDir @ [db_entry env dbName]) = Some (DB oldDBBackend src)"
    and inv: "store_inv src"
    and fresh: "map_of (files w) (tempDir @ [db_entry env dbName]) = None"
    and ok: "migrateDB env dbName dataDir oldDBBackend tempDir w = (None, w')"
  shows "map_of (files w') (tempDir @ [db_entry env dbName]) = Some (DB PebbleDBBackend src)
       \<and> take (length (commits w)) (commits w') = commits w
       \<and> concat (new_commits w w') = src"
proof -
  let ?d = "tempDir @ [db_entry env dbName]"
  from migrateDB_None [OF ok] src obtain cs where
    w': "files w' = fold (db_write ?d) cs (open_dest ?d (files w))"
        "commits w' = commits w @ map (Pair ?d) cs" and
    cs: "concat cs = src"
    by auto
  have "map_of (open_dest ?d (files w)) ?d = Some (DB PebbleDBBackend [])"
    using fresh by (simp add: open_dest_def map_add_def)
  from fold_db_write [OF this, of cs] have
    "map_of (files w') ?d = Some (DB PebbleDBBackend (apply_batch src []))"
    by (simp add: w' cs)
  moreover have "apply_batch src [] = src"
    using apply_batch_sorted [of "[]" src] inv by simp
  ultimately show ?thesis
    by (simp add: w' new_commits_def comp_def cs)
qed

theorem migrateDB_complete_witness:
  "map_of (files w0) ([''data''] @ [db_entry env0 ''state'']) = Some (DB ''goleveldb'' recs0)
   \<and> store_inv recs0
   \<and> map_of (files w0) ([''tmp''] @ [db_entry env0 ''state'']) = None
   \<and> fst (migrateDB env0 ''state'' [''data''] ''goleveldb'' [''tmp''] w0) = None
   \<and> map_of (files (snd (migrateDB env0 ''state'' [''data''] ''goleveldb'' [''tmp''] w0)))
        [''tmp'', ''state.db''] = Some (DB PebbleDBBackend recs0)
   \<and> new_commits w0 (snd (migrateDB env0 ''state'' [''data''] ''goleveldb'' [''tmp''] w0)) = [recs0]"
proof -
  let ?r = "migrateDB env0 ''state'' [''data''] ''goleveldb'' [''tmp''] w0"
  have h1: "map_of (files w0) ([''data''] @ [db_entry env0 ''state'']) = Some (DB ''goleveldb'' recs0)"
    by (simp add: w0_def env0_def)
  have h2: "store_inv recs0"
    by (simp add: store_inv_def recs0_def)
  have h3: "map_of (files w0) ([''tmp''] @ [db_entry env0 ''state'']) = None"
    by (simp add: w0_def env0_def)
  have run: "?r = (None, \<lparr>files = [([''data''], Dir), ([''data'', ''state.db''], DB ''goleveldb'' recs0),
                 ([''tmp''], Dir), ([''tmp'', ''state.db''], DB PebbleDBBackend recs0)],
          out = [MigrationDone 3 5], commits = [([''tmp'', ''state.db''], recs0)], clock_reads = 2\<rparr>)"
    by (simp add: migrateDB_def NewDB_def Iterator_def batch_Set_def batch_WriteSync_def
        batch_Close_def time_Now_def print_def apply_batch_def w0_def env0_def recs0_def Let_def
        PebbleDBBackend_def)
  have c0: "commits w0 = []" by (simp add: w0_def)
  from migrateDB_complete [OF h1 h2 h3 run] h1 h2 h3 run show ?thesis
    by (simp add: new_commits_def c0)
qed

section \<open>Batch boundaries\<close>

text \<open>
  Claim C2.  When the source Store holds \<open>10000 * k + r\<close> Records with \<open>r < 10000\<close>, a
  successful \<open>migrateDB\<close> commits exactly \<open>k + 1\<close> batches: the first \<open>k\<close> hold 10000
  Records each and the last one holds \<open>r\<close> Records, also when \<open>r = 0\<close>.  For an empty source
  there is exactly one commit, of the empty batch, and a freshly created destination holds
  no Record.
\<close>

theorem migrateDB_batches:
  assumes src: "map_of (files w) (dataDir @ [db_entry env dbName]) = Some (DB oldDBBackend src)"
    and len: "length src = 10000 * k + r" and r: "r < 10000"
    and ok: "migrateDB env dbName dataDir oldDBBackend tempDir w = (None, w')"
  shows "take (length (commits w)) (commits w') = commits w
       \<and> length (new_commits w w') = k + 1
       \<and> (\<forall>i < k. length (new_commits w w' ! i) = 10000)
       \<and> length (new_commits w w' ! k) = r
       \<and> (src = [] \<longrightarrow> new_commits w w' = [[]])
       \<and> (src = [] \<and> map_of (files w) (tempDir @ [db_entry env dbName]) = None \<longrightarrow>
            map_of (files w') (tempDir @ [db_entry env dbName]) = Some (DB PebbleDBBackend []))"
proof -
  let ?d = "tempDir @ [db_entry env dbName]"
  from migrateDB_None [OF ok] src obtain cs where
    w': "files w' = fold (db_write ?d) cs (open_dest ?d (files w))"
        "commits w' = commits w @ map (Pair ?d) cs" and
    cs: "cs \<noteq> []" "\<forall>c \<in> set (butlast cs). length c = 10000" "concat cs = src"
        "length (last cs) = length src mod 10000"
    by auto
  have nc: "new_commits w w' = cs"
    by (simp add: new_commits_def w' comp_def)
  from cs(1) obtain bs l where bl: "cs = bs @ [l]"
    by (metis append_butlast_last_id)
  have full: "\<forall>c \<in> set bs. length c = 10000" using cs(2) by (simp add: bl)
  have "length src = 10000 * length bs + length l"
    using cs(3) length_concat_full [OF full] by (auto simp: bl)
  moreover have "length l < 10000" using cs(4) by (simp add: bl)
  ultimately have kr: "length bs = k \<and> length l = r"
    using divmod_unique [of 10000 "length bs" "length l" k r] len r by simp
  have a: "length cs = k + 1" using kr by (simp add: bl)
  have b: "\<forall>i < k. length (cs ! i) = 10000"
    using full kr by (auto simp: bl nth_append)
  have c: "length (cs ! k) = r" using kr by (auto simp: bl nth_append)
  have d: "src = [] \<longrightarrow> cs = [[]]"
  proof
    assume "src = []"
    with len have "k = 0" "r = 0" by simp_all
    with kr show "cs = [[]]" by (simp add: bl)
  qed
  have e: "src = [] \<and> map_of (files w) ?d = None \<longrightarrow> map_of (files w') ?d = Some (DB PebbleDBBackend [])"
  proof
    assume h: "src = [] \<and> map_of (files w) ?d = None"
    then have "map_of (open_dest ?d (files w)) ?d = Some (DB PebbleDBBackend [])"
      by (simp add: open_dest_def map_add_def)
    from fold_db_write [OF this, of cs] h cs(3) show "map_of (files w') ?d = Some (DB PebbleDBBackend [])"
      by (simp add: w' apply_batch_def)
  qed
  from a b c d e show ?thesis by (simp add: nc w')
qed


theorem migrateDB_batches_witness:
  "length (new_commits w0 (snd (migrateDB env0 ''state'' [''data''] ''goleveldb'' [''tmp''] w0))) = 0 + 1
   \<and> length (new_commits w0 (snd (migrateDB env0 ''state'' [''data''] ''goleveldb'' [''tmp''] w0)) ! 0) = 3
   \<and> new_commits w_empty (snd (migrateDB env0 ''evidence'' [''data''] ''goleveldb'' [''tmp''] w_empty)) = [[]]
   \<and> map_of (files (snd (migrateDB env0 ''evidence'' [''data''] ''goleveldb'' [''tmp''] w_empty)))
        ([''tmp''] @ [db_entry env0 ''evidence'']) = Some (DB PebbleDBBackend [])"
proof -
  have s0: "map_of (files w0) ([''data''] @ [db_entry env0 ''state'']) = Some (DB ''goleveldb'' recs0)"
    by (simp add: w0_def env0_def)
  have l0: "length recs0 = 10000 * 0 + 3" by (simp add: recs0_def)
  have run0: "migrateDB env0 ''state'' [''data''] ''goleveldb'' [''tmp''] w0 =
      (None, snd (migrateDB env0 ''state'' [''data''] ''goleveldb'' [''tmp''] w0))"
    by (simp add: migrateDB_def NewDB_def Iterator_def batch_Set_def batch_WriteSync_def
        batch_Close_def time_Now_def print_def apply_batch_def w0_def env0_def recs0_def Let_def
        PebbleDBBackend_def)
  have s1: "map_of (files w_empty) ([''data''] @ [db_entry env0 ''evidence'']) = Some (DB ''goleveldb'' [])"
    by (simp add: w_empty_def env0_def)
  have f1: "map_of (files w_empty) ([''tmp''] @ [db_entry env0 ''evidence'']) = None"
    by (simp add: w_empty_def env0_def)
  have l1: "length ([]::kv list) = 10000 * 0 + 0" by simp
  have run1: "migrateDB env0 ''evidence'' [''data''] ''goleveldb'' [''tmp''] w_empty =
      (None, snd (migrateDB env0 ''evidence'' [''data''] ''goleveldb'' [''tmp''] w_empty))"
    by (simp add: migrateDB_def NewDB_def Iterator_def batch_Set_def batch_WriteSync_def
        batch_Close_def time_Now_def print_def apply_batch_def w_empty_def env0_def Let_def
        PebbleDBBackend_def)
  from migrateDB_batches [OF s0 l0 _ run0] migrateDB_batches [OF s1 l1 _ run1] f1
  show ?thesis by simp
qed

section \<open>What a run changes in the file system\<close>

text \<open>Unfolding the definitions on concrete runs.\<close>

lemmas run_defs = main_def migrate_light_def finish_def copy_migrated_def swap_entry_def fatalf_def
  os_Stat_def os_MkdirAll_def os_RemoveAll_def os_Rename_def os_ReadDir_def child_names_def
  TrimSpace_def ToLower_char_def isSpace_def cometBFTDatabases_def lightClientDBName_def
  migrateDB_def NewDB_def Iterator_def batch_Set_def batch_WriteSync_def
  batch_Close_def time_Now_def print_def apply_batch_def Let_def PebbleDBBackend_def

lemma subtree_append: "subtree p (xs @ ys) = subtree p xs @ subtree p ys"
  by (simp add: subtree_def)

lemma subtree_update:
  "\<not> prefix p h \<Longrightarrow> subtree p (AList.update h v fs) = subtree p fs"
  by (induction fs) (auto simp: subtree_def)

lemma subtree_remove_other:
  "\<not> prefix p r \<Longrightarrow> \<not> prefix r p \<Longrightarrow>
   subtree p (filter (\<lambda>(q, n). \<not> prefix r q) fs) = subtree p fs"
  unfolding subtree_def filter_filter
  by (rule filter_cong) (auto dest: prefix_same_cases)

lemma subtree_remove_self: "subtree p (filter (\<lambda>(q, n). \<not> prefix p q) fs) = []"
  by (auto simp: subtree_def filter_empty_conv)

lemma map_of_subtree: "map_of (subtree p fs) p = map_of fs p"
  by (induction fs) (auto simp: subtree_def)

lemma subtree_db_write: "\<not> prefix p h \<Longrightarrow> subtree p (db_write h c fs) = subtree p fs"
  by (auto simp: db_write_def subtree_update split: option.splits node.splits)

lemma subtree_fold_db_write:
  "\<not> prefix p h \<Longrightarrow> subtree p (fold (db_write h) cs fs) = subtree p fs"
  by (induction cs arbitrary: fs) (simp_all add: subtree_db_write)

lemma subtree_open_dest: "\<not> prefix p d \<Longrightarrow> subtree p (open_dest d fs) = subtree p fs"
  by (auto simp: open_dest_def subtree_def split: option.splits)

lemma not_prefix_snoc:
  "\<not> prefix a b \<Longrightarrow> \<not> prefix b a \<Longrightarrow> \<not> prefix a (b @ [y])"
  by (auto simp: prefix_snoc)

lemma not_prefix_snoc2:
  "\<not> prefix a b \<Longrightarrow> \<not> prefix (a @ [x]) b"
  using append_prefixD by blast

lemma not_prefix_snoc_snoc:
  "\<not> prefix a b \<Longrightarrow> \<not> prefix b a \<Longrightarrow> \<not> prefix (a @ [x]) (b @ [y])"
  by (auto simp: prefix_snoc dest: append_prefixD)

lemma not_prefix_sibling: "x \<noteq> y \<Longrightarrow> \<not> prefix (a @ [x]) (a @ [y])"
  by (auto simp: prefix_snoc)


lemma batch_WriteSync_Inr_world:
  "batch_WriteSync env h c w = Inr w1 \<Longrightarrow>
     files w1 = db_write h c (files w) \<and> commits w1 = commits w @ [(h, c)] \<and>
     out w1 = out w \<and> clock_reads w1 = clock_reads w"
  using batch_WriteSync_Inr [of env h c w w1] by simp

lemma migrate_loop_Inl_world:
  "migrate_loop env h iter batch n w = Inl (e, w') \<Longrightarrow>
   \<exists>cs. w' = w\<lparr>files := fold (db_write h) cs (files w), commits := commits w @ map (Pair h) cs\<rparr>"
proof (induction iter arbitrary: batch n w)
  case Nil
  then show ?case by simp
next
  case (Cons x iter)
  obtain k v where x: "x = (k, v)" by (cases x)
  show ?case
  proof (cases "batch_Set env h n batch k v")
    case (Inl c)
    with Cons.prems have "w' = w" by (simp add: x)
    then show ?thesis by (intro exI [of _ "[]"]) simp
  next
    case (Inr b1)
    show ?thesis
    proof (cases "Suc n mod 10000 = 0")
      case False
      with Cons.prems Inr have "migrate_loop env h iter b1 (Suc n) w = Inl (e, w')"
        by (simp add: x)
      from Cons.IH [OF this] show ?thesis .
    next
      case True
      show ?thesis
      proof (cases "batch_WriteSync env h b1 w")
        case (Inl c)
        with Cons.prems Inr True have "w' = w" by (simp add: x)
        then show ?thesis by (intro exI [of _ "[]"]) simp
      next
        case Inr2: (Inr w1)
        note ws = batch_WriteSync_Inr [OF Inr2]
        show ?thesis
        proof (cases "batch_Close env h w1")
          case (Some c)
          with Cons.prems Inr True Inr2 have "w' = w1" by (simp add: x)
          with ws show ?thesis by (intro exI [of _ "[b1]"]) simp
        next
          case None
          with Cons.prems Inr True Inr2 have "migrate_loop env h iter [] (Suc n) w1 = Inl (e, w')"
            by (simp add: x)
          from Cons.IH [OF this] obtain cs where
            "w' = w1\<lparr>files := fold (db_write h) cs (files w1),
                      commits := commits w1 @ map (Pair h) cs\<rparr>" by blast
          with ws show ?thesis by (intro exI [of _ "b1 # cs"]) simp
        qed
      qed
    qed
  qed
qed

text \<open>Whatever it returns, \<open>migrateDB\<close> changes the files at the destination store only.\<close>

lemma migrateDB_world:
  assumes run: "migrateDB env dbName dataDir oldDBBackend tempDir w = (r, w')"
  shows "\<exists>cs fs1. (fs1 = files w \<or> fs1 = open_dest (tempDir @ [db_entry env dbName]) (files w))
      \<and> files w' = fold (db_write (tempDir @ [db_entry env dbName])) cs fs1
      \<and> commits w' = commits w @ map (Pair (tempDir @ [db_entry env dbName])) cs
      \<and> (r \<noteq> None \<longrightarrow> out w' = out w)"
proof -
  let ?d = "tempDir @ [db_entry env dbName]"
  let ?goal = ?thesis
  have triv: "w' = w \<Longrightarrow> ?goal"
    by (intro exI [of _ "[]"] exI [of _ "files w"]) simp
  show ?thesis
  proof (cases "NewDB env ReadMode dbName oldDBBackend dataDir w")
    case (Inl c)
    with run have "w' = w" by (simp add: migrateDB_def)
    then show ?thesis by (rule triv)
  next
    case o1: (Inr a)
    obtain oldDB w1 where a: "a = (oldDB, w1)" by (cases a)
    from NewDB_Read_Inr [OF o1 [unfolded a]] have w1: "w1 = w" by simp
    show ?thesis
    proof (cases "NewDB env WriteMode dbName PebbleDBBackend tempDir w")
      case (Inl c)
      with run o1 a w1 have "w' = w" by (simp add: migrateDB_def)
      then show ?thesis by (rule triv)
    next
      case o2: (Inr b)
      obtain newDB w2 where b: "b = (newDB, w2)" by (cases b)
      from NewDB_Write_Inr [OF o2 [unfolded b]] have newDB: "newDB = ?d"
        and w2: "w2 = w\<lparr>files := open_dest ?d (files w)\<rparr>"
        by (auto simp: open_dest_def)
      show ?thesis
      proof (cases "Iterator env oldDB w2")
        case (Inl c)
        with run o1 a w1 o2 b have "w' = w2" by (simp add: migrateDB_def)
        then show ?thesis
          by (intro exI [of _ "[]"] exI [of _ "open_dest ?d (files w)"]) (simp add: w2)
      next
        case it: (Inr iter)
        let ?w3 = "w2\<lparr>clock_reads := Suc (clock_reads w2)\<rparr>"
        show ?thesis
        proof (cases "migrate_loop env newDB iter [] 0 ?w3")
          case (Inl x)
          obtain e w4 where x: "x = (e, w4)" by (cases x)
          from run o1 a w1 o2 b it Inl have "w' = w4" "r = Some e"
            by (auto simp: migrateDB_def time_Now_def x)
          moreover from migrate_loop_Inl_world [OF Inl [unfolded x]] obtain cs where
            "w4 = ?w3\<lparr>files := fold (db_write newDB) cs (files ?w3),
                       commits := commits ?w3 @ map (Pair newDB) cs\<rparr>" by blast
          ultimately show ?thesis
            by (intro exI [of _ cs] exI [of _ "open_dest ?d (files w)"]) (simp add: w2 newDB)
        next
          case lp: (Inr y)
          obtain batch n w4 where y: "y = (batch, n, w4)" by (cases y)
          from migrate_loop_Inr [OF lp [unfolded y]] obtain cs where
            w4: "w4 = ?w3\<lparr>files := fold (db_write newDB) cs (files ?w3),
                       commits := commits ?w3 @ map (Pair newDB) cs\<rparr>" by auto
          show ?thesis
          proof (cases "batch_WriteSync env newDB batch w4")
            case (Inl c)
            with run o1 a w1 o2 b it lp y have "w' = w4" "r \<noteq> None"
              by (auto simp: migrateDB_def time_Now_def)
            with w4 show ?thesis
              by (intro exI [of _ cs] exI [of _ "open_dest ?d (files w)"]) (simp add: w2 newDB)
          next
            case fin: (Inr w5)
            note ws = batch_WriteSync_Inr [OF fin]
            show ?thesis
            proof (cases "batch_Close env newDB w5")
              case (Some c)
              with run o1 a w1 o2 b it lp y fin have "w' = w5" "r \<noteq> None"
                by (auto simp: migrateDB_def time_Now_def)
              with w4 ws show ?thesis
                by (intro exI [of _ "cs @ [batch]"] exI [of _ "open_dest ?d (files w)"])
                   (simp add: w2 newDB)
            next
              case None
              with run o1 a w1 o2 b it lp y fin have
                "\<exists>m. w' = print m (w5\<lparr>clock_reads := Suc (clock_reads w5)\<rparr>)" "r = None"
                by (auto simp: migrateDB_def time_Now_def)
              with w4 ws show ?thesis
                by (intro exI [of _ "cs @ [batch]"] exI [of _ "open_dest ?d (files w)"])
                   (auto simp: w2 newDB print_def)
            qed
          qed
        qed
      qed
    qed
  qed
qed

lemma migrateDB_subtree:
  assumes "migrateDB env dbName dataDir oldDBBackend tempDir w = (r, w')"
    and "\<not> prefix p (tempDir @ [db_entry env dbName])"
  shows "subtree p (files w') = subtree p (files w)"
  using migrateDB_world [OF assms(1)] assms(2)
  by (auto simp: subtree_fold_db_write subtree_open_dest)


lemma mkdirs_subtree:
  "mkdirs qs fs = Inr fs' \<Longrightarrow> \<forall>q \<in> set qs. \<not> prefix p q \<Longrightarrow> subtree p fs' = subtree p fs"
proof (induction qs arbitrary: fs)
  case Nil
  then show ?case by simp
next
  case (Cons q qs)
  show ?case
  proof (cases "map_of fs q")
    case None
    with Cons.prems have "mkdirs qs (fs @ [(q, Dir)]) = Inr fs'" by simp
    from Cons.IH [OF this] Cons.prems(2) show ?thesis
      by (simp add: subtree_def)
  next
    case (Some n)
    with Cons.prems have "mkdirs qs fs = Inr fs'" by (simp split: if_splits)
    from Cons.IH [OF this] Cons.prems(2) show ?thesis by simp
  qed
qed

lemma os_MkdirAll_Inr:
  assumes "os_MkdirAll env t w = Inr w'" and "\<not> prefix p t"
  shows "subtree p (files w') = subtree p (files w) \<and> out w' = out w \<and> commits w' = commits w"
proof -
  from assms(1) obtain fs' where m: "mkdirs (tl (prefixes t)) (files w) = Inr fs'"
    and w': "w' = w\<lparr>files := fs'\<rparr>"
    by (auto simp: os_MkdirAll_def split: option.splits sum.splits)
  have "\<forall>q \<in> set (tl (prefixes t)). \<not> prefix p q"
  proof
    fix q assume "q \<in> set (tl (prefixes t))"
    then have "q \<in> set (prefixes t)" by (rule list.set_sel(2) [rotated]) auto
    then have "prefix q t" by (simp add: in_set_prefixes)
    with assms(2) show "\<not> prefix p q" using prefix_order.trans by blast
  qed
  from mkdirs_subtree [OF m this] show ?thesis by (simp add: w')
qed

lemma os_RemoveAll_Inr:
  "os_RemoveAll env t w = Inr w' \<Longrightarrow>
     w' = w\<lparr>files := filter (\<lambda>(q, n). \<not> prefix t q) (files w)\<rparr>"
  by (auto simp: os_RemoveAll_def split: option.splits)

lemma promptYesNo_files:
  "promptYesNo q ls w = Some (b, w') \<Longrightarrow> files w' = files w \<and> commits w' = commits w"
  by (induction ls arbitrary: w) (auto simp: Let_def print_def split: if_splits)

lemma promptYesNo_answer:
  "map_option fst (promptYesNo q ls w) = map_option fst (promptYesNo q' ls w')"
proof (induction ls arbitrary: w w')
  case Nil
  show ?case by simp
next
  case (Cons l ls)
  show ?case using Cons.IH by (simp add: Let_def)
qed

lemma promptYesNo_operator_answer:
  "promptYesNo q ls w = Some (b, w') \<Longrightarrow> operator_answer ls = Some b"
  using promptYesNo_answer [of q ls w "[]" "\<lparr>files = [], out = [], commits = [], clock_reads = 0\<rparr>"]
  by (simp add: operator_answer_def)

lemma end_world_simps [simp]:
  "end_world (Inl (f, w)) = w" "end_world (Inr w) = w" "end_world (fatalf f w) = w"
  by (simp_all add: end_world_def fatalf_def)

lemma migrate_all_subtree:
  "\<forall>n \<in> set names. \<not> prefix p (tempDir @ [db_entry env n]) \<Longrightarrow>
   subtree p (files (end_world (migrate_all env names dataDir old tempDir w))) = subtree p (files w)"
proof (induction names arbitrary: w)
  case Nil
  show ?case by simp
next
  case (Cons n names)
  obtain r w1 where m: "migrateDB env n dataDir old tempDir (print (Migrating n) w) = (r, w1)"
    by (cases "migrateDB env n dataDir old tempDir (print (Migrating n) w)")
  have np: "\<not> prefix p (tempDir @ [db_entry env n])" and
    rest: "\<forall>n \<in> set names. \<not> prefix p (tempDir @ [db_entry env n])"
    using Cons.prems by simp_all
  have s1: "subtree p (files w1) = subtree p (files w)"
    using migrateDB_subtree [OF m np] by (simp add: print_def)
  show ?case
  proof (cases r)
    case None
    with m Cons.IH [OF rest, of w1] s1 show ?thesis by simp
  next
    case (Some e)
    with m s1 show ?thesis by simp
  qed
qed

lemma migrate_light_subtree:
  "\<not> prefix p (tempDir @ [db_entry env lightClientDBName]) \<Longrightarrow>
   subtree p (files (end_world (migrate_light env dataDir old tempDir w))) = subtree p (files w)"
proof -
  assume np: "\<not> prefix p (tempDir @ [db_entry env lightClientDBName])"
  obtain r w1 where m: "migrateDB env lightClientDBName dataDir old tempDir
      (print (Migrating lightClientDBName) w) = (r, w1)"
    by (cases "migrateDB env lightClientDBName dataDir old tempDir (print (Migrating lightClientDBName) w)")
  have s1: "subtree p (files w1) = subtree p (files w)"
    using migrateDB_subtree [OF m np] by (simp add: print_def)
  show ?thesis
    using m s1 by (cases r) (auto simp: migrate_light_def split: sum.splits)
qed

section \<open>Declining the confirmation\<close>

text \<open>
  Claim C3.  Let neither of the live data directory and the staging directory lie inside
  the other.  If the operator answers no and the run ends with status 0, then every entry
  at or below the live data directory is what it was before the run, and nothing is
  left at or below the staging directory: the swap has not run and the migrated data is
  discarded with the staging directory.
\<close>

theorem declined_keeps_live_directory:
  assumes nd: "\<not> prefix dataDir tempDir" and dn: "\<not> prefix tempDir dataDir"
    and no: "operator_answer (stdin env) = Some False"
    and run: "main env dataDir oldDBBackend tempDir w = Some (Inr w')"
  shows "subtree dataDir (files w') = subtree dataDir (files w)
       \<and> subtree tempDir (files w') = []"
proof -
  have np: "\<And>n. \<not> prefix dataDir (tempDir @ [db_entry env n])"
    using nd dn by (rule not_prefix_snoc)
  from run obtain w1 where mk: "os_MkdirAll env tempDir w = Inr w1"
    by (auto simp: main_def fatalf_def split: sum.splits)
  from run mk obtain w2 where
    ma: "migrate_all env cometBFTDatabases dataDir oldDBBackend tempDir w1 = Inr w2"
    by (auto simp: main_def split: sum.splits)
  from run mk ma obtain w3 where
    ml: "migrate_light env dataDir oldDBBackend tempDir w2 = Inr w3"
    by (auto simp: main_def split: sum.splits)
  from run mk ma ml obtain c w4 where
    pr: "promptYesNo ''Do you have a backup of the data directory?'' (stdin env) w3 = Some (c, w4)"
    and fi: "finish env dataDir tempDir c w4 = Inr w'"
    by (auto simp: main_def split: option.splits)
  from promptYesNo_operator_answer [OF pr] no have c: "c = False" by simp
  from fi c obtain w5 where rm: "os_RemoveAll env tempDir w4 = Inr w5"
    and w': "w' = print Completed w5"
    by (auto simp: finish_def fatalf_def split: sum.splits)
  have f5: "files w' = filter (\<lambda>(q, n). \<not> prefix tempDir q) (files w3)"
    using os_RemoveAll_Inr [OF rm] promptYesNo_files [OF pr] by (simp add: w' print_def)
  have "subtree dataDir (files w1) = subtree dataDir (files w)"
    using os_MkdirAll_Inr [OF mk nd] by simp
  moreover have "subtree dataDir (files w2) = subtree dataDir (files w1)"
    using migrate_all_subtree [where names = cometBFTDatabases and p = dataDir and tempDir = tempDir
        and env = env and dataDir = dataDir and old = oldDBBackend and w = w1] np ma
    by simp
  moreover have "subtree dataDir (files w3) = subtree dataDir (files w2)"
    using migrate_light_subtree [where p = dataDir and tempDir = tempDir
        and env = env and dataDir = dataDir and old = oldDBBackend and w = w2] np ml by simp
  moreover have "subtree dataDir (files w') = subtree dataDir (files w3)"
    unfolding f5 using nd dn by (rule subtree_remove_other)
  moreover have "subtree tempDir (files w') = []"
    unfolding f5 by (rule subtree_remove_self)
  ultimately show ?thesis by simp
qed

theorem declined_keeps_live_directory_witness:
  "operator_answer (stdin env0) = Some False
   \<and> main env0 [''data''] ''goleveldb'' [''tmp''] w_live = Some (Inr w_declined)
   \<and> subtree [''data''] (files w_declined) = subtree [''data''] (files w_live)
   \<and> subtree [''tmp''] (files w_declined) = []"
proof -
  have h1: "\<not> prefix [''data''] [''tmp'']" and h2: "\<not> prefix [''tmp''] [''data'']"
    by simp_all
  have h3: "operator_answer (stdin env0) = Some False"
    by (simp add: operator_answer_def env0_def run_defs)
  have run: "main env0 [''data''] ''goleveldb'' [''tmp''] w_live = Some (Inr w_declined)"
    by (simp add: run_defs w_live_def w_declined_def env0_def recs0_def)
  from declined_keeps_live_directory [OF h1 h2 h3 run] h3 run show ?thesis by simp
qed

section \<open>The swap\<close>

lemma os_Rename_Inr:
  assumes "os_Rename env old new w = Inr w'" and "\<not> prefix old new" and "\<not> prefix new old"
  shows "w' = w\<lparr>files := map (relocate old new) (filter (\<lambda>(q, n). \<not> prefix new q) (files w))\<rparr>"
proof -
  from assms(2) have "old \<noteq> new" by auto
  with assms(1) show ?thesis
    by (auto simp: os_Rename_def split: option.splits if_splits)
qed

lemma relocate_subtree_new:
  assumes "\<not> prefix old new" and "\<not> prefix new old"
  shows "subtree new (map (relocate old new) (filter (\<lambda>(q, n). \<not> prefix new q) fs))
       = map (relocate old new) (subtree old fs)"
proof (induction fs)
  case Nil
  show ?case by (simp add: subtree_def)
next
  case (Cons a fs)
  obtain q n where a: "a = (q, n)" by (cases a)
  have "prefix old q \<Longrightarrow> \<not> prefix new q"
    using assms prefix_same_cases by blast
  with Cons.IH show ?case
    by (auto simp: subtree_def a)
qed

lemma relocate_subtree_other:
  assumes "\<not> prefix r old" "\<not> prefix old r" "\<not> prefix r new" "\<not> prefix new r"
  shows "subtree r (map (relocate old new) (filter (\<lambda>(q, n). \<not> prefix new q) fs)) = subtree r fs"
proof (induction fs)
  case Nil
  show ?case by (simp add: subtree_def)
next
  case (Cons a fs)
  obtain q n where a: "a = (q, n)" by (cases a)
  have 1: "prefix r q \<Longrightarrow> \<not> prefix new q" "prefix r q \<Longrightarrow> \<not> prefix old q"
    using assms prefix_same_cases by blast+
  have 2: "\<not> prefix r (new @ zs)" for zs
    using assms(3,4) by (metis prefix_append prefixI)
  from Cons.IH 1 2 show ?case
    by (auto simp: subtree_def a)
qed

text \<open>A successful step of the swap loop on a directory entry.\<close>

lemma swap_entry_Inr:
  assumes ok: "swap_entry env dataDir tempDir (name, True) w = Inr w'"
    and nd: "\<not> prefix dataDir tempDir" and dn: "\<not> prefix tempDir dataDir"
  shows "files w' = map (relocate (tempDir @ [name]) (dataDir @ [name]))
                     (filter (\<lambda>(q, n). \<not> prefix (dataDir @ [name]) q) (files w))"
proof -
  let ?s = "tempDir @ [name]" and ?d = "dataDir @ [name]"
  have sd: "\<not> prefix ?s ?d" "\<not> prefix ?d ?s"
    using not_prefix_snoc_snoc [OF dn nd] not_prefix_snoc_snoc [OF nd dn] by blast+
  from ok obtain w1 where
    pre: "(case os_Stat env ?d w of
             Inr n \<Rightarrow> (case os_RemoveAll env ?d (print (Replacing ?d) w) of
                         Inl e \<Rightarrow> fatalf (FailRemoveAll e) (print (Replacing ?d) w)
                       | Inr w1 \<Rightarrow> Inr w1)
           | Inl e \<Rightarrow> Inr w) = Inr w1"
    and rn: "os_Rename env ?s ?d w1 = Inr (w'\<lparr>out := out w1\<rparr>) \<or> (\<exists>w2. os_Rename env ?s ?d w1 = Inr w2 \<and> w' = print (Moved ?s ?d) w2)"
    by (auto simp: swap_entry_def Let_def fatalf_def split: sum.splits)
  from rn obtain w2 where rn2: "os_Rename env ?s ?d w1 = Inr w2" and w': "files w' = files w2"
    by (auto simp: print_def)
  have f1: "files w1 = files w \<or> files w1 = filter (\<lambda>(q, n). \<not> prefix ?d q) (files w)"
    using pre by (auto simp: fatalf_def print_def split: sum.splits dest!: os_RemoveAll_Inr)
  have "filter (\<lambda>(q, n). \<not> prefix ?d q) (files w1) = filter (\<lambda>(q, n). \<not> prefix ?d q) (files w)"
    using f1 by auto
  with os_Rename_Inr [OF rn2 sd] w' show ?thesis by simp
qed

lemma swap_entry_file: "swap_entry env dataDir tempDir (name, False) w = Inr w"
  by (simp add: swap_entry_def)

lemma swap_entries_frame:
  assumes nd: "\<not> prefix dataDir tempDir" and dn: "\<not> prefix tempDir dataDir"
  shows "swap_entries env dataDir tempDir es w = Inr w' \<Longrightarrow>
    \<forall>n. (n, True) \<in> set es \<longrightarrow>
        \<not> prefix r (tempDir @ [n]) \<and> \<not> prefix (tempDir @ [n]) r \<and>
        \<not> prefix r (dataDir @ [n]) \<and> \<not> prefix (dataDir @ [n]) r \<Longrightarrow>
    subtree r (files w') = subtree r (files w)"
proof (induction es arbitrary: w)
  case Nil
  then show ?case by simp
next
  case (Cons e es)
  obtain n d where e: "e = (n, d)" by (cases e)
  from Cons.prems(1) obtain w1 where
    s1: "swap_entry env dataDir tempDir (n, d) w = Inr w1" and
    rest: "swap_entries env dataDir tempDir es w1 = Inr w'"
    by (auto simp: e split: sum.splits)
  have "subtree r (files w1) = subtree r (files w)"
  proof (cases d)
    case True
    with Cons.prems(2) have
      "\<not> prefix r (tempDir @ [n])" "\<not> prefix (tempDir @ [n]) r"
      "\<not> prefix r (dataDir @ [n])" "\<not> prefix (dataDir @ [n]) r"
      by (simp_all add: e)
    moreover from s1 True have "swap_entry env dataDir tempDir (n, True) w = Inr w1" by simp
    note swap_entry_Inr [OF this nd dn]
    ultimately show ?thesis by (simp add: relocate_subtree_other)
  next
    case False
    with s1 show ?thesis by (simp add: swap_entry_file)
  qed
  moreover have "subtree r (files w') = subtree r (files w1)"
    using Cons.IH [OF rest] Cons.prems(2) by simp
  ultimately show ?case by simp
qed


lemma swap_entries_moved:
  assumes nd: "\<not> prefix dataDir tempDir" and dn: "\<not> prefix tempDir dataDir"
  shows "swap_entries env dataDir tempDir es w = Inr w' \<Longrightarrow> distinct (map fst es) \<Longrightarrow>
    (name, True) \<in> set es \<Longrightarrow>
    subtree (dataDir @ [name]) (files w') =
      map (relocate (tempDir @ [name]) (dataDir @ [name])) (subtree (tempDir @ [name]) (files w))"
proof (induction es arbitrary: w)
  case Nil
  then show ?case by simp
next
  case (Cons e es)
  obtain m d where e: "e = (m, d)" by (cases e)
  from Cons.prems(1) obtain w1 where
    s1: "swap_entry env dataDir tempDir (m, d) w = Inr w1" and
    rest: "swap_entries env dataDir tempDir es w1 = Inr w'"
    by (auto simp: e split: sum.splits)
  have sd: "\<not> prefix (tempDir @ [x]) (dataDir @ [y])" "\<not> prefix (dataDir @ [x]) (tempDir @ [y])" for x y
    using not_prefix_snoc_snoc [OF dn nd] not_prefix_snoc_snoc [OF nd dn] by blast+
  show ?case
  proof (cases "e = (name, True)")
    case True
    then have md: "m = name" "d = True" by (simp_all add: e)
    from s1 have "swap_entry env dataDir tempDir (name, True) w = Inr w1" by (simp add: md)
    note f1 = swap_entry_Inr [OF this nd dn]
    have here: "subtree (dataDir @ [name]) (files w1) =
      map (relocate (tempDir @ [name]) (dataDir @ [name])) (subtree (tempDir @ [name]) (files w))"
      unfolding f1 using sd by (rule relocate_subtree_new)
    have "\<forall>n. (n, True) \<in> set es \<longrightarrow>
        \<not> prefix (dataDir @ [name]) (tempDir @ [n]) \<and> \<not> prefix (tempDir @ [n]) (dataDir @ [name]) \<and>
        \<not> prefix (dataDir @ [name]) (dataDir @ [n]) \<and> \<not> prefix (dataDir @ [n]) (dataDir @ [name])"
    proof (intro allI impI)
      fix n assume "(n, True) \<in> set es"
      with Cons.prems(2) have "n \<noteq> name" by (force simp: e md)
      then show "\<not> prefix (dataDir @ [name]) (tempDir @ [n]) \<and> \<not> prefix (tempDir @ [n]) (dataDir @ [name]) \<and>
        \<not> prefix (dataDir @ [name]) (dataDir @ [n]) \<and> \<not> prefix (dataDir @ [n]) (dataDir @ [name])"
        using sd by (simp add: not_prefix_sibling)
    qed
    from swap_entries_frame [OF nd dn rest this] here show ?thesis by simp
  next
    case False
    with Cons.prems(3) have mem: "(name, True) \<in> set es" by simp
    with Cons.prems(2) have ne: "m \<noteq> name" by (force simp: e)
    have keep: "subtree (tempDir @ [name]) (files w1) = subtree (tempDir @ [name]) (files w)"
    proof (cases d)
      case True
      from s1 True have "swap_entry env dataDir tempDir (m, True) w = Inr w1" by simp
      note f1 = swap_entry_Inr [OF this nd dn]
      show ?thesis unfolding f1
        using ne sd by (intro relocate_subtree_other) (simp_all add: not_prefix_sibling)
    next
      case False
      with s1 show ?thesis by (simp add: swap_entry_file)
    qed
    from Cons.IH [OF rest _ mem] Cons.prems(2) keep show ?thesis by (simp add: e)
  qed
qed

lemma set_child_names: "set (child_names p fs) = {n. p @ [n] \<in> fst ` set fs}"
proof -
  have key: "(\<exists>q c. (q, c) \<in> set fs \<and> q \<noteq> [] \<and> butlast q = p \<and> last q = n) \<longleftrightarrow> p @ [n] \<in> fst ` set fs" for n
  proof
    assume "\<exists>q c. (q, c) \<in> set fs \<and> q \<noteq> [] \<and> butlast q = p \<and> last q = n"
    then obtain q c where "(q, c) \<in> set fs" "q \<noteq> []" "butlast q = p" "last q = n" by blast
    then have "(p @ [n], c) \<in> set fs" by (metis append_butlast_last_id)
    then show "p @ [n] \<in> fst ` set fs" by force
  next
    assume "p @ [n] \<in> fst ` set fs"
    then obtain c where "(p @ [n], c) \<in> set fs" by auto
    then show "\<exists>q c. (q, c) \<in> set fs \<and> q \<noteq> [] \<and> butlast q = p \<and> last q = n"
      by (intro exI [of _ "p @ [n]"] exI [of _ c]) simp
  qed
  have "n \<in> set (child_names p fs) \<longleftrightarrow>
      (\<exists>q c. (q, c) \<in> set fs \<and> q \<noteq> [] \<and> butlast q = p \<and> last q = n)" for n
    by (force simp: child_names_def)
  with key show ?thesis by blast
qed

lemma os_ReadDir_Inr:
  assumes "os_ReadDir env p w = Inr es"
  shows "distinct (map fst es)"
    and "(n, d) \<in> set es \<longleftrightarrow> (\<exists>c. map_of (files w) (p @ [n]) = Some c \<and> d = is_dir c)"
proof -
  let ?f = "\<lambda>name. (name, case map_of (files w) (p @ [name]) of Some c \<Rightarrow> is_dir c | None \<Rightarrow> False)"
  from assms have es: "es = map ?f (child_names p (files w))"
    by (auto simp: os_ReadDir_def split: option.splits if_splits)
  have "map fst es = child_names p (files w)"
    by (simp add: es comp_def)
  then show "distinct (map fst es)" by (simp add: child_names_def)
  have "(n, d) \<in> set es \<longleftrightarrow> n \<in> set (child_names p (files w)) \<and>
      d = (case map_of (files w) (p @ [n]) of Some c \<Rightarrow> is_dir c | None \<Rightarrow> False)"
    by (auto simp: es)
  also have "\<dots> \<longleftrightarrow> (\<exists>c. map_of (files w) (p @ [n]) = Some c \<and> d = is_dir c)"
    by (auto simp: set_child_names map_of_eq_None_iff [symmetric] split: option.splits)
       (force dest: map_of_SomeD)+
  finally show "(n, d) \<in> set es \<longleftrightarrow> (\<exists>c. map_of (files w) (p @ [n]) = Some c \<and> d = is_dir c)" .
qed

lemma finish_True_Inr:
  assumes "finish env dataDir tempDir True w = Inr w'"
  obtains es w1 where "os_ReadDir env tempDir (print Copying w) = Inr es"
    and "swap_entries env dataDir tempDir es (print Copying w) = Inr w1"
    and "copy_migrated env dataDir tempDir w = Inr w1"
    and "files w' = filter (\<lambda>(q, n). \<not> prefix tempDir q) (files w1)"
proof -
  from assms obtain w1 w2 where c: "copy_migrated env dataDir tempDir w = Inr w1"
    and r: "os_RemoveAll env tempDir w1 = Inr w2" and w': "w' = print Completed w2"
    by (auto simp: finish_def fatalf_def split: sum.splits)
  from c obtain es where "os_ReadDir env tempDir (print Copying w) = Inr es"
    "swap_entries env dataDir tempDir es (print Copying w) = Inr w1"
    by (auto simp: copy_migrated_def fatalf_def split: sum.splits)
  moreover have "files w' = filter (\<lambda>(q, n). \<not> prefix tempDir q) (files w1)"
    using os_RemoveAll_Inr [OF r] by (simp add: w' print_def)
  ultimately show ?thesis using c that by blast
qed

text \<open>
  Claim C4.  Let neither of the live data directory and the staging directory lie inside
  the other, and let the staging directory hold a top-level entry \<open>name\<close> that is a
  directory.  If the operator has confirmed and the swap and the cleanup succeed, then the
  entries at or below \<open>name\<close> in the live data directory are exactly the staged ones, moved:
  whatever the live directory held under that name is gone (a replacement, not a merge).
  Afterwards nothing is left at or below the staging directory.
\<close>

theorem confirmed_swap_replaces:
  assumes nd: "\<not> prefix dataDir tempDir" and dn: "\<not> prefix tempDir dataDir"
    and staged: "map_of (files w) (tempDir @ [name]) = Some c" and dir: "is_dir c"
    and run: "finish env dataDir tempDir True w = Inr w'"
  shows "subtree (dataDir @ [name]) (files w') =
           map (relocate (tempDir @ [name]) (dataDir @ [name])) (subtree (tempDir @ [name]) (files w))
       \<and> subtree tempDir (files w') = []"
proof -
  from run obtain es w1 where rd: "os_ReadDir env tempDir (print Copying w) = Inr es"
    and sw: "swap_entries env dataDir tempDir es (print Copying w) = Inr w1"
    and f': "files w' = filter (\<lambda>(q, n). \<not> prefix tempDir q) (files w1)"
    by (rule finish_True_Inr)
  have mem: "(name, True) \<in> set es"
    using os_ReadDir_Inr(2) [OF rd, of name True] staged dir by (simp add: print_def)
  from swap_entries_moved [OF nd dn sw os_ReadDir_Inr(1) [OF rd] mem]
  have "subtree (dataDir @ [name]) (files w1) =
      map (relocate (tempDir @ [name]) (dataDir @ [name])) (subtree (tempDir @ [name]) (files w))"
    by (simp add: print_def)
  moreover have "subtree (dataDir @ [name]) (files w') = subtree (dataDir @ [name]) (files w1)"
    unfolding f' using not_prefix_snoc2 [OF nd] not_prefix_snoc [OF dn nd]
    by (intro subtree_remove_other)
  moreover have "subtree tempDir (files w') = []"
    unfolding f' by (rule subtree_remove_self)
  ultimately show ?thesis by simp
qed


theorem confirmed_swap_replaces_witness:
  "map_of (files w_staged) ([''tmp''] @ [''extra'']) = Some Dir \<and> is_dir Dir
   \<and> finish env0 [''data''] [''tmp''] True w_staged = Inr w_swapped
   \<and> subtree ([''data''] @ [''extra'']) (files w_staged) =
        [([''data'', ''extra''], Dir), ([''data'', ''extra'', ''old''], File [9])]
   \<and> subtree ([''data''] @ [''extra'']) (files w_swapped) =
        [([''data'', ''extra''], Dir), ([''data'', ''extra'', ''new''], File [8])]
   \<and> subtree [''tmp''] (files w_swapped) = []"
proof -
  have h1: "\<not> prefix [''data''] [''tmp'']" and h2: "\<not> prefix [''tmp''] [''data'']"
    by simp_all
  have st: "map_of (files w_staged) ([''tmp''] @ [''extra'']) = Some Dir"
    by (simp add: w_staged_def)
  have run: "finish env0 [''data''] [''tmp''] True w_staged = Inr w_swapped"
    by (simp add: run_defs w_staged_def w_swapped_def env0_def)
  have before: "subtree ([''data''] @ [''extra'']) (files w_staged) =
        [([''data'', ''extra''], Dir), ([''data'', ''extra'', ''old''], File [9])]"
    by (simp add: subtree_def w_staged_def)
  have staged: "subtree ([''tmp''] @ [''extra'']) (files w_staged) =
        [([''tmp'', ''extra''], Dir), ([''tmp'', ''extra'', ''new''], File [8])]"
    by (simp add: subtree_def w_staged_def)
  from confirmed_swap_replaces [OF h1 h2 st _ run] st run before staged show ?thesis
    by simp
qed

text \<open>
  Claim C10.  Under the same conditions, a top-level entry of the staging directory that is
  not a directory is not moved: after the swap it is still in the staging directory and the
  live data directory is unchanged at or below that name; after the cleanup the staged
  entry is gone with the staging directory, and the live directory is still unchanged
  at or below that name.
\<close>

theorem plain_files_are_not_moved:
  assumes nd: "\<not> prefix dataDir tempDir" and dn: "\<not> prefix tempDir dataDir"
    and staged: "map_of (files w) (tempDir @ [name]) = Some c" and plain: "\<not> is_dir c"
    and copy: "copy_migrated env dataDir tempDir w = Inr w1"
    and run: "finish env dataDir tempDir True w = Inr w'"
  shows "map_of (files w1) (tempDir @ [name]) = Some c
       \<and> subtree (dataDir @ [name]) (files w1) = subtree (dataDir @ [name]) (files w)
       \<and> map_of (files w') (tempDir @ [name]) = None
       \<and> subtree (dataDir @ [name]) (files w') = subtree (dataDir @ [name]) (files w)"
proof -
  from run copy obtain es where rd: "os_ReadDir env tempDir (print Copying w) = Inr es"
    and sw: "swap_entries env dataDir tempDir es (print Copying w) = Inr w1"
    and f': "files w' = filter (\<lambda>(q, n). \<not> prefix tempDir q) (files w1)"
    by (auto elim: finish_True_Inr)
  have sd: "\<not> prefix (tempDir @ [x]) (dataDir @ [y])" "\<not> prefix (dataDir @ [x]) (tempDir @ [y])" for x y
    using not_prefix_snoc_snoc [OF dn nd] not_prefix_snoc_snoc [OF nd dn] by blast+
  have other: "n \<noteq> name \<and> name \<noteq> n" if "(n, True) \<in> set es" for n
    using that os_ReadDir_Inr(2) [OF rd, of name True] staged plain
    by (auto simp: print_def)
  have inc_t: "\<forall>n. (n, True) \<in> set es \<longrightarrow>
        \<not> prefix (tempDir @ [name]) (tempDir @ [n]) \<and> \<not> prefix (tempDir @ [n]) (tempDir @ [name]) \<and>
        \<not> prefix (tempDir @ [name]) (dataDir @ [n]) \<and> \<not> prefix (dataDir @ [n]) (tempDir @ [name])"
    using other sd by (simp add: not_prefix_sibling)
  have inc_d: "\<forall>n. (n, True) \<in> set es \<longrightarrow>
        \<not> prefix (dataDir @ [name]) (tempDir @ [n]) \<and> \<not> prefix (tempDir @ [n]) (dataDir @ [name]) \<and>
        \<not> prefix (dataDir @ [name]) (dataDir @ [n]) \<and> \<not> prefix (dataDir @ [n]) (dataDir @ [name])"
    using other sd by (simp add: not_prefix_sibling)
  have "subtree (tempDir @ [name]) (files w1) = subtree (tempDir @ [name]) (files (print Copying w))"
    using swap_entries_frame [OF nd dn sw inc_t] .
  then have "map_of (subtree (tempDir @ [name]) (files w1)) (tempDir @ [name]) =
             map_of (subtree (tempDir @ [name]) (files w)) (tempDir @ [name])"
    by (simp add: print_def)
  then have a: "map_of (files w1) (tempDir @ [name]) = Some c"
    using staged by (simp add: map_of_subtree)
  have b: "subtree (dataDir @ [name]) (files w1) = subtree (dataDir @ [name]) (files w)"
    using swap_entries_frame [OF nd dn sw inc_d] by (simp add: print_def)
  have c: "map_of (files w') (tempDir @ [name]) = None"
    unfolding f' by (auto simp: map_of_eq_None_iff)
  have d: "subtree (dataDir @ [name]) (files w') = subtree (dataDir @ [name]) (files w1)"
    unfolding f' using not_prefix_snoc2 [OF nd] not_prefix_snoc [OF dn nd]
    by (intro subtree_remove_other)
  from a b c d show ?thesis by simp
qed


theorem plain_files_are_not_moved_witness:
  "map_of (files w_staged) ([''tmp''] @ [''notes.txt'']) = Some (File [2]) \<and> \<not> is_dir (File [2])
   \<and> copy_migrated env0 [''data''] [''tmp''] w_staged = Inr w_copied
   \<and> finish env0 [''data''] [''tmp''] True w_staged = Inr w_swapped
   \<and> map_of (files w_copied) ([''tmp''] @ [''notes.txt'']) = Some (File [2])
   \<and> subtree ([''data''] @ [''notes.txt'']) (files w_staged) = [([''data'', ''notes.txt''], File [1])]
   \<and> subtree ([''data''] @ [''notes.txt'']) (files w_swapped) = [([''data'', ''notes.txt''], File [1])]
   \<and> map_of (files w_swapped) ([''tmp''] @ [''notes.txt'']) = None"
proof -
  have h1: "\<not> prefix [''data''] [''tmp'']" and h2: "\<not> prefix [''tmp''] [''data'']"
    by simp_all
  have st: "map_of (files w_staged) ([''tmp''] @ [''notes.txt'']) = Some (File [2])"
    by (simp add: w_staged_def)
  have pl: "\<not> is_dir (File [2])" by simp
  have cp: "copy_migrated env0 [''data''] [''tmp''] w_staged = Inr w_copied"
    by (simp add: run_defs w_staged_def w_copied_def env0_def)
  have run: "finish env0 [''data''] [''tmp''] True w_staged = Inr w_swapped"
    by (simp add: run_defs w_staged_def w_swapped_def env0_def)
  have before: "subtree ([''data''] @ [''notes.txt'']) (files w_staged) = [([''data'', ''notes.txt''], File [1])]"
    by (simp add: subtree_def w_staged_def)
  from plain_files_are_not_moved [OF h1 h2 st pl cp run] st cp run before show ?thesis
    by simp
qed

end
